theory Spec2Isabelle
  imports Main "HOL-Library.Sublist"
begin

section \<open>Condensed nearest neighbour under-sampling\<close>

text \<open>
  A shallow embedding of \<^verbatim>\<open>CondensedNearestNeighbour\<close>
  (\<^verbatim>\<open>_condensed_nearest_neighbour.py\<close>): \<^verbatim>\<open>_validate_estimator\<close> and
  \<^verbatim>\<open>_fit_resample\<close>.

  Class labels are integers. A feature row is a value of an arbitrary type \<open>'x\<close>, the
  feature matrix \<open>X\<close> a list of rows, \<open>y\<close> the list of labels and row indices are
  natural numbers. The caller (\<^verbatim>\<open>fit_resample\<close> of the base class) has validated that
  \<open>X\<close>, \<open>y\<close> and the weights have the same length.
\<close>

type_synonym label = int

subsection \<open>Configuration, errors and collaborators\<close>

text \<open>
  The value of the parameter \<^verbatim>\<open>n_neighbors\<close>: \<^verbatim>\<open>None\<close>, an \<^verbatim>\<open>int\<close>, an instance of
  \<^verbatim>\<open>KNeighborsClassifier\<close>, or a value of any other type (with the name of its type).
\<close>

datatype 'c n_neighbors_arg = NNone | NInt int | NClassifier 'c | NOther string

text \<open>
  The estimator \<^verbatim>\<open>_validate_estimator\<close> builds: a new
  \<^verbatim>\<open>KNeighborsClassifier(n_neighbors=k, n_jobs=j)\<close> or a clone of the instance given.
\<close>

datatype 'c estimator = KNeighborsClassifier int "int option" | Clone 'c

text \<open>
  The errors: the \<^verbatim>\<open>ValueError\<close> \<^verbatim>\<open>_validate_estimator\<close> raises (with the name of
  the offending type), the \<^verbatim>\<open>ValueError\<close> the builtin \<^verbatim>\<open>min\<close> raises on an empty
  \<^verbatim>\<open>Counter\<close>, and the \<^verbatim>\<open>AttributeError\<close> of reading an unset \<^verbatim>\<open>estimator_\<close>.
\<close>

datatype error = ValueError_n_neighbors string | ValueError_min_empty | AttributeError_estimator

text \<open>
  The collaborators, which are not part of this file: the classifier's \<^verbatim>\<open>fit\<close> (from
  an estimator and the training rows and labels to a fitted model) and \<^verbatim>\<open>predict\<close>
  (row by row), and the random source's \<^verbatim>\<open>randint(low=0, high, size)\<close>, from a generator
  state, \<open>high\<close> and \<open>size\<close> to the draws and the next generator state. They are
  taken to return: an exception of the classifier (too few rows for the neighbour
  count, say) is not caught by the code and ends the run; it is not modelled.
\<close>

record ('x, 'c, 'm, 'r) collaborators =
  fit :: "'c estimator \<Rightarrow> 'x list \<Rightarrow> label list \<Rightarrow> 'm"
  predict :: "'m \<Rightarrow> 'x \<Rightarrow> label"
  randint :: "'r \<Rightarrow> nat \<Rightarrow> nat \<Rightarrow> nat list \<times> 'r"

text \<open>
  The sampler object; a primed field is the attribute of that name with a trailing
  underscore. \<open>sampling_strategy'\<close> is the dictionary from targeted labels to
  counts, of which the code reads the keys only. \<open>random_state\<close> is the generator
  \<^verbatim>\<open>check_random_state\<close> resolves to. \<open>estimator'\<close> and \<open>sample_indices'\<close> are unset
  until \<^verbatim>\<open>_fit_resample\<close> assigns them. \<open>n_seeds_S\<close> is a natural number: \<^verbatim>\<open>randint\<close>
  rejects a negative size.
\<close>

record ('c, 'r) CondensedNearestNeighbour =
  sampling_strategy' :: "label \<rightharpoonup> nat"
  random_state :: 'r
  n_neighbors :: "'c n_neighbors_arg"
  n_seeds_S :: nat
  n_jobs :: "int option"
  estimator' :: "'c estimator option"
  sample_indices' :: "nat list option"

subsection \<open>\<^verbatim>\<open>_validate_estimator\<close>\<close>

definition validate_estimator ::
  "('c, 'r) CondensedNearestNeighbour \<Rightarrow> error + ('c, 'r) CondensedNearestNeighbour" where
  "validate_estimator self =
     (case n_neighbors self of
        NNone \<Rightarrow> Inr (self\<lparr>estimator' := Some (KNeighborsClassifier 1 (n_jobs self))\<rparr>)
      | NInt k \<Rightarrow> Inr (self\<lparr>estimator' := Some (KNeighborsClassifier k (n_jobs self))\<rparr>)
      | NClassifier c \<Rightarrow> Inr (self\<lparr>estimator' := Some (Clone c)\<rparr>)
      | NOther ty \<Rightarrow> Inl (ValueError_n_neighbors ty))"

text \<open>
  Reading \<^verbatim>\<open>self.estimator_\<close>: an \<^verbatim>\<open>AttributeError\<close> while the attribute is unset,
  which cannot happen after \<^verbatim>\<open>_validate_estimator\<close> has returned.
\<close>

subsection \<open>The array operations used\<close>

text \<open>\<^verbatim>\<open>np.flatnonzero(y == c)\<close>: the positions of \<open>y\<close> holding \<open>c\<close>, ascending.\<close>

definition flatnonzero_eq :: "'a list \<Rightarrow> 'a \<Rightarrow> nat list" where
  "flatnonzero_eq y c = filter (\<lambda>i. y ! i = c) [0..<length y]"

text \<open>\<^verbatim>\<open>np.flatnonzero(pred_S_y == S_y)\<close> for two arrays of the same length.\<close>

definition flatnonzero_agree :: "'a list \<Rightarrow> 'a list \<Rightarrow> nat list" where
  "flatnonzero_agree pred_S_y S_y = filter (\<lambda>q. pred_S_y ! q = S_y ! q) [0..<length S_y]"

text \<open>\<^verbatim>\<open>_safe_indexing(a, idx)\<close> and \<^verbatim>\<open>a[idx]\<close>: the entries of \<open>a\<close> at \<open>idx\<close>, in the order of \<open>idx\<close>.\<close>

definition safe_indexing :: "'a list \<Rightarrow> nat list \<Rightarrow> 'a list" where
  "safe_indexing a idx = map (\<lambda>i. a ! i) idx"

text \<open>\<^verbatim>\<open>np.unique\<close>: the distinct entries, ascending.\<close>

definition np_unique :: "'a::linorder list \<Rightarrow> 'a list" where
  "np_unique xs = sort (remdups xs)"

subsection \<open>\<^verbatim>\<open>Counter(y)\<close> and the minority class\<close>

text \<open>
  A \<^verbatim>\<open>Counter\<close> is a dictionary in insertion order: an association list whose keys are
  in the order in which the labels are first met. A missing key counts 0.
\<close>

fun counter_incr :: "label \<Rightarrow> (label \<times> nat) list \<Rightarrow> (label \<times> nat) list" where
  "counter_incr c [] = [(c, 1)]"
| "counter_incr c ((k, v) # m) = (if k = c then (k, Suc v) # m else (k, v) # counter_incr c m)"

definition Counter :: "label list \<Rightarrow> (label \<times> nat) list" where
  "Counter y = foldl (\<lambda>m c. counter_incr c m) [] y"

definition counter_get :: "(label \<times> nat) list \<Rightarrow> label \<Rightarrow> nat" where
  "counter_get m c = (case map_of m c of None \<Rightarrow> 0 | Some v \<Rightarrow> v)"

text \<open>
  \<^verbatim>\<open>min(target_stats, key=target_stats.get)\<close>: the keys are scanned in the dictionary's
  order and the best one is replaced only by a strictly smaller count. It raises on an
  empty dictionary.
\<close>

fun min_scan :: "label \<times> nat \<Rightarrow> (label \<times> nat) list \<Rightarrow> label \<times> nat" where
  "min_scan b [] = b"
| "min_scan b (kv # rest) = min_scan (if snd kv < snd b then kv else b) rest"

definition min_key :: "(label \<times> nat) list \<Rightarrow> label option" where
  "min_key m = (case m of [] \<Rightarrow> None | kv # rest \<Rightarrow> Some (fst (min_scan kv rest)))"

subsection \<open>The loop over the candidates of one targeted class\<close>

text \<open>
  What the code does with its collaborators, recorded as it happens: the seeds drawn
  for a class, every \<^verbatim>\<open>fit\<close> with the indices of its training rows, every single
  \<^verbatim>\<open>predict\<close> with the position of the candidate in \<open>S\<close>, and every batch \<^verbatim>\<open>predict\<close> of
  \<open>S\<close>.
\<close>

datatype event =
    DrawSeeds label "nat list"
  | Fit label label "nat list"
  | Predict label nat
  | PredictAll label

text \<open>
  The variables the candidate loop reads and writes. \<open>fitted\<close> is the state of
  \<^verbatim>\<open>self.estimator_\<close> after its latest \<^verbatim>\<open>fit\<close>.
\<close>

record 'm cnn_state =
  idx_maj_sample :: "nat list"
  C_indices :: "nat list"
  fitted :: 'm
  good_classif_label :: "nat list"
  events :: "event list"

text \<open>
  One iteration of \<^verbatim>\<open>for idx_sam, (x_sam, y_sam) in enumerate(zip(S_x, S_y))\<close>, for the
  class \<open>target_class\<close> with the minority class \<open>class_minority\<close>.
\<close>

definition cnn_step ::
  "('x, 'c, 'm, 'r) collaborators \<Rightarrow> 'c estimator \<Rightarrow> 'x list \<Rightarrow> label list \<Rightarrow> label \<Rightarrow> label \<Rightarrow>
   nat list \<Rightarrow> 'x list \<Rightarrow> label list \<Rightarrow> 'm cnn_state \<Rightarrow> nat \<times> 'x \<times> label \<Rightarrow> 'm cnn_state" where
  "cnn_step K est X y class_minority target_class idx_maj S_x S_y st sam =
     (case sam of (idx_sam, x_sam, y_sam) \<Rightarrow>
        if idx_sam \<in> set (good_classif_label st) then st
        else
          let pred_y = predict K (fitted st) x_sam;
              ev1 = events st @ [Predict target_class idx_sam]
          in if y_sam \<noteq> pred_y then
               let idx_maj_sample' = idx_maj_sample st @ [idx_maj ! idx_sam];
                   C_indices' = C_indices st @ [idx_maj ! idx_sam];
                   C_x = safe_indexing X C_indices';
                   C_y = safe_indexing y C_indices';
                   fitted' = fit K est C_x C_y;
                   pred_S_y = map (predict K fitted') S_x
               in \<lparr>idx_maj_sample = idx_maj_sample',
                   C_indices = C_indices',
                   fitted = fitted',
                   good_classif_label = np_unique (idx_maj_sample' @ flatnonzero_agree pred_S_y S_y),
                   events = ev1 @ [Fit target_class class_minority C_indices', PredictAll target_class]\<rparr>
             else st\<lparr>events := ev1\<rparr>)"

text \<open>
  The state before the loop: \<open>C\<close> is all the minority rows followed by the seeds, the
  estimator is fitted on \<open>C\<close>, and \<open>good_classif_label\<close> is a copy of the seeds.
\<close>

definition cnn_init ::
  "('x, 'c, 'm, 'r) collaborators \<Rightarrow> 'c estimator \<Rightarrow> 'x list \<Rightarrow> label list \<Rightarrow> label \<Rightarrow> label \<Rightarrow>
   nat list \<Rightarrow> event list \<Rightarrow> 'm cnn_state" where
  "cnn_init K est X y class_minority target_class seeds ev =
     (let C = flatnonzero_eq y class_minority @ seeds
      in \<lparr>idx_maj_sample = seeds,
          C_indices = C,
          fitted = fit K est (safe_indexing X C) (safe_indexing y C),
          good_classif_label = seeds,
          events = ev @ [DrawSeeds target_class seeds, Fit target_class class_minority C]\<rparr>)"

definition cnn_loop ::
  "('x, 'c, 'm, 'r) collaborators \<Rightarrow> 'c estimator \<Rightarrow> 'x list \<Rightarrow> label list \<Rightarrow> label \<Rightarrow> label \<Rightarrow>
   nat list \<Rightarrow> event list \<Rightarrow> 'm cnn_state" where
  "cnn_loop K est X y class_minority target_class seeds ev =
     (let idx_maj = flatnonzero_eq y target_class;
          S_indices = flatnonzero_eq y target_class;
          S_x = safe_indexing X S_indices;
          S_y = safe_indexing y S_indices
      in foldl (cnn_step K est X y class_minority target_class idx_maj S_x S_y)
           (cnn_init K est X y class_minority target_class seeds ev)
           (zip [0..<length S_x] (zip S_x S_y)))"

subsection \<open>The loop over the classes and \<^verbatim>\<open>_fit_resample\<close>\<close>

text \<open>
  One iteration of \<^verbatim>\<open>for target_class in np.unique(y)\<close>, on the generator state, the
  indices accumulated in \<open>idx_under\<close> and the events so far.
\<close>

definition class_step ::
  "('x, 'c, 'm, 'r) collaborators \<Rightarrow> ('c, 'r) CondensedNearestNeighbour \<Rightarrow> 'c estimator \<Rightarrow>
   'x list \<Rightarrow> label list \<Rightarrow> (label \<times> nat) list \<Rightarrow> label \<Rightarrow>
   'r \<times> nat list \<times> event list \<Rightarrow> label \<Rightarrow> 'r \<times> nat list \<times> event list" where
  "class_step K self est X y target_stats class_minority acc target_class =
     (case acc of (rs, idx_under, ev) \<Rightarrow>
        if sampling_strategy' self target_class \<noteq> None then
          let idx_maj = flatnonzero_eq y target_class;
              (draws, rs') = randint K rs (counter_get target_stats target_class) (n_seeds_S self);
              seeds = safe_indexing idx_maj draws;
              st = cnn_loop K est X y class_minority target_class seeds ev
          in (rs', idx_under @ idx_maj_sample st, events st)
        else (rs, idx_under @ flatnonzero_eq y target_class, ev))"

text \<open>The value returned: two arrays, or three when weights were given.\<close>

datatype ('x, 'w) resampled =
    Resampled2 "'x list" "label list"
  | Resampled3 "'x list" "label list" "'w list"

text \<open>
  \<^verbatim>\<open>_fit_resample\<close>. On success it returns the value, the updated object, the generator
  state after the draws and the events in order.
\<close>

definition fit_resample ::
  "('x, 'c, 'm, 'r) collaborators \<Rightarrow> ('c, 'r) CondensedNearestNeighbour \<Rightarrow>
   'x list \<Rightarrow> label list \<Rightarrow> 'w list option \<Rightarrow>
   error + (('x, 'w) resampled \<times> ('c, 'r) CondensedNearestNeighbour \<times> 'r \<times> event list)" where
  "fit_resample K self X y sample_weight =
     (case validate_estimator self of
        Inl e \<Rightarrow> Inl e
      | Inr self1 \<Rightarrow>
          (case estimator' self1 of
             None \<Rightarrow> Inl AttributeError_estimator
           | Some est \<Rightarrow>
               let target_stats = Counter y in
               (case min_key target_stats of
                  None \<Rightarrow> Inl ValueError_min_empty
                | Some class_minority \<Rightarrow>
                    (case foldl (class_step K self1 est X y target_stats class_minority)
                            (random_state self1, [], []) (np_unique y) of
                       (rs, idx_under, ev) \<Rightarrow>
                         let self2 = self1\<lparr>sample_indices' := Some idx_under\<rparr> in
                         (case sample_weight of
                            Some w \<Rightarrow>
                              Inr (Resampled3 (safe_indexing X idx_under) (safe_indexing y idx_under)
                                     (safe_indexing w idx_under), self2, rs, ev)
                          | None \<Rightarrow>
                              Inr (Resampled2 (safe_indexing X idx_under) (safe_indexing y idx_under),
                                   self2, rs, ev))))))"

subsection \<open>A concrete classifier and a concrete random source\<close>

text \<open>
  Instances of the collaborators for closed examples. The classifier is the
  1-nearest-neighbour rule on rows that are single integers: \<open>nn1_fit\<close> stores the
  training rows with their labels, \<open>nn1_predict\<close> returns the label of the closest
  stored row (the earliest one among equally close rows; label 0 when nothing is
  stored, which no example reaches). The random source replays a script of raw
  numbers, each reduced modulo \<open>high\<close>, and draws 0 when the script is used up.
\<close>

definition nn1_fit :: "'c estimator \<Rightarrow> int list \<Rightarrow> label list \<Rightarrow> (int \<times> label) list" where
  "nn1_fit est C_x C_y = zip C_x C_y"

fun nn1_nearest :: "int \<times> label \<Rightarrow> (int \<times> label) list \<Rightarrow> int \<Rightarrow> int \<times> label" where
  "nn1_nearest b [] x = b"
| "nn1_nearest b (p # ps) x = nn1_nearest (if \<bar>fst p - x\<bar> < \<bar>fst b - x\<bar> then p else b) ps x"

definition nn1_predict :: "(int \<times> label) list \<Rightarrow> int \<Rightarrow> label" where
  "nn1_predict m x = (case m of [] \<Rightarrow> 0 | p # ps \<Rightarrow> snd (nn1_nearest p ps x))"

definition script_randint :: "nat list \<Rightarrow> nat \<Rightarrow> nat \<Rightarrow> nat list \<times> nat list" where
  "script_randint rs high k =
     (map (\<lambda>r. r mod high) (take k (rs @ replicate k 0)), drop k rs)"

definition K_nn1 :: "(int, 'c, (int \<times> label) list, nat list) collaborators" where
  "K_nn1 = \<lparr>fit = nn1_fit, predict = nn1_predict, randint = script_randint\<rparr>"

definition cnn_new ::
  "(label \<rightharpoonup> nat) \<Rightarrow> 'r \<Rightarrow> 'c n_neighbors_arg \<Rightarrow> nat \<Rightarrow> ('c, 'r) CondensedNearestNeighbour" where
  "cnn_new strategy rs nn k =
     \<lparr>sampling_strategy' = strategy, random_state = rs, n_neighbors = nn, n_seeds_S = k,
      n_jobs = None, estimator' = None, sample_indices' = None\<rparr>"

subsection \<open>Predicates of the statements and of the proofs\<close>

text \<open>The invariant of the scan of min: over the pairs seen so far, the best one has
  the least count, and it stands before every other pair with the same count.\<close>

definition min_inv :: "label \<times> nat \<Rightarrow> (label \<times> nat) list \<Rightarrow> bool" where
  "min_inv b seen \<longleftrightarrow>
     b \<in> set seen \<and>
     (\<forall>kv \<in> set seen. snd b \<le> snd kv \<and>
        (snd kv = snd b \<and> fst kv \<noteq> fst b \<longrightarrow> fst b \<in> set (takeWhile (\<lambda>a. a \<noteq> fst kv) (map fst seen))))"

text \<open>An event of the candidate loop of class t, after the seeds are drawn: every fit is
  on rows that include all the rows of the minority class cm.\<close>

definition loop_event :: "label list \<Rightarrow> label \<Rightarrow> label \<Rightarrow> event \<Rightarrow> bool" where
  "loop_event y cm t e =
     (case e of
        DrawSeeds t' s \<Rightarrow> False
      | Fit t' m C \<Rightarrow> t' = t \<and> m = cm \<and> set (flatnonzero_eq y cm) \<subseteq> set C
      | Predict t' p \<Rightarrow> t' = t
      | PredictAll t' \<Rightarrow> t' = t)"

text \<open>The invariant of the candidate loop of class t, started with the seeds and the
  events ev: the selected indices are the seeds followed by indices of the class, the
  training indices are the minority rows followed by the selected indices, and the
  events are ev, the draw, the first fit and events of this loop.\<close>

definition loop_inv ::
  "label list \<Rightarrow> label \<Rightarrow> label \<Rightarrow> nat list \<Rightarrow> event list \<Rightarrow> 'm cnn_state \<Rightarrow> bool" where
  "loop_inv y cm t seeds ev st \<longleftrightarrow>
     (\<exists>added evs.
        idx_maj_sample st = seeds @ added \<and>
        set added \<subseteq> set (flatnonzero_eq y t) \<and>
        C_indices st = flatnonzero_eq y cm @ seeds @ added \<and>
        events st = ev @ DrawSeeds t seeds # Fit t cm (flatnonzero_eq y cm @ seeds) # evs \<and>
        list_all (loop_event y cm t) evs)"

text \<open>The contract of \<^verbatim>\<open>randint(low=0, high, size)\<close> for a positive \<open>high\<close>: it returns
  \<open>size\<close> draws, each below \<open>high\<close>.\<close>

definition randint_ok :: "('x, 'c, 'm, 'r) collaborators \<Rightarrow> bool" where
  "randint_ok K \<longleftrightarrow>
     (\<forall>rs high k. 0 < high \<longrightarrow>
        length (fst (randint K rs high k)) = k \<and> (\<forall>d \<in> set (fst (randint K rs high k)). d < high))"

text \<open>The indices emitted for the label c: the entries of the index sequence whose row
  has the label c, in their order and with their repetitions.\<close>

definition emitted :: "label list \<Rightarrow> label \<Rightarrow> nat list \<Rightarrow> nat list" where
  "emitted y c idx = filter (\<lambda>i. y ! i = c) idx"

text \<open>What one iteration of the loop over the classes appends for the class t: the
  indices and the events.\<close>

definition class_block ::
  "('x, 'c, 'm, 'r) collaborators \<Rightarrow> ('c, 'r) CondensedNearestNeighbour \<Rightarrow> 'c estimator \<Rightarrow>
   'x list \<Rightarrow> label list \<Rightarrow> label \<Rightarrow> label \<times> nat list \<times> event list \<Rightarrow> bool" where
  "class_block K self est X y cm b =
     (case b of (t, block, evs) \<Rightarrow>
        if sampling_strategy' self t = None then block = flatnonzero_eq y t \<and> evs = []
        else (\<exists>seeds added evs'.
                block = seeds @ added \<and>
                (\<exists>ev0. block = idx_maj_sample (cnn_loop K est X y cm t seeds ev0)) \<and>
                evs = DrawSeeds t seeds # Fit t cm (flatnonzero_eq y cm @ seeds) # evs' \<and>
                (\<exists>rs. seeds = safe_indexing (flatnonzero_eq y t)
                                (fst (randint K rs (count_list y t) (n_seeds_S self)))) \<and>
                length seeds = n_seeds_S self \<and>
                set seeds \<subseteq> set (flatnonzero_eq y t) \<and>
                set added \<subseteq> set (flatnonzero_eq y t) \<and>
                list_all (loop_event y cm t) evs'))"

text \<open>The value \<^verbatim>\<open>_fit_resample\<close> returns for the final indices.\<close>

definition gathered :: "'x list \<Rightarrow> label list \<Rightarrow> 'w list option \<Rightarrow> nat list \<Rightarrow> ('x, 'w) resampled" where
  "gathered X y sample_weight idx =
     (case sample_weight of
        Some w \<Rightarrow> Resampled3 (safe_indexing X idx) (safe_indexing y idx) (safe_indexing w idx)
      | None \<Rightarrow> Resampled2 (safe_indexing X idx) (safe_indexing y idx))"

subsection \<open>The wording of the specification\<close>

text \<open>
  The candidate loop as the specification words it (section 4.3, step 4a, with
  position-based tracking): the well-classified set holds positions of the queue. It
  starts as the positions of the seeds, and a retrain makes it the positions of the
  seeds together with the positions whose fresh prediction matches. Everything else is
  as in \<open>cnn_step\<close> and \<open>cnn_loop\<close>.
\<close>

definition cnn_step_position_based ::
  "('x, 'c, 'm, 'r) collaborators \<Rightarrow> 'c estimator \<Rightarrow> 'x list \<Rightarrow> label list \<Rightarrow> label \<Rightarrow> label \<Rightarrow>
   nat list \<Rightarrow> 'x list \<Rightarrow> label list \<Rightarrow> nat list \<Rightarrow> 'm cnn_state \<Rightarrow> nat \<times> 'x \<times> label \<Rightarrow> 'm cnn_state" where
  "cnn_step_position_based K est X y class_minority target_class idx_maj S_x S_y seed_positions st sam =
     (case sam of (idx_sam, x_sam, y_sam) \<Rightarrow>
        if idx_sam \<in> set (good_classif_label st) then st
        else
          let pred_y = predict K (fitted st) x_sam;
              ev1 = events st @ [Predict target_class idx_sam]
          in if y_sam \<noteq> pred_y then
               let idx_maj_sample' = idx_maj_sample st @ [idx_maj ! idx_sam];
                   C_indices' = C_indices st @ [idx_maj ! idx_sam];
                   C_x = safe_indexing X C_indices';
                   C_y = safe_indexing y C_indices';
                   fitted' = fit K est C_x C_y;
                   pred_S_y = map (predict K fitted') S_x
               in \<lparr>idx_maj_sample = idx_maj_sample',
                   C_indices = C_indices',
                   fitted = fitted',
                   good_classif_label = np_unique (seed_positions @ flatnonzero_agree pred_S_y S_y),
                   events = ev1 @ [Fit target_class class_minority C_indices', PredictAll target_class]\<rparr>
             else st\<lparr>events := ev1\<rparr>)"

definition cnn_loop_position_based ::
  "('x, 'c, 'm, 'r) collaborators \<Rightarrow> 'c estimator \<Rightarrow> 'x list \<Rightarrow> label list \<Rightarrow> label \<Rightarrow> label \<Rightarrow>
   nat list \<Rightarrow> event list \<Rightarrow> 'm cnn_state" where
  "cnn_loop_position_based K est X y class_minority target_class seed_positions ev =
     (let idx_maj = flatnonzero_eq y target_class;
          seeds = safe_indexing idx_maj seed_positions;
          S_x = safe_indexing X idx_maj;
          S_y = safe_indexing y idx_maj
      in foldl (cnn_step_position_based K est X y class_minority target_class idx_maj S_x S_y seed_positions)
           ((cnn_init K est X y class_minority target_class seeds ev)\<lparr>good_classif_label := seed_positions\<rparr>)
           (zip [0..<length S_x] (zip S_x S_y)))"



section \<open>Lemmas\<close>

lemma set_flatnonzero_eq: "set (flatnonzero_eq y c) = {i. i < length y \<and> y ! i = c}"
  by (auto simp: flatnonzero_eq_def)

lemma distinct_flatnonzero_eq: "distinct (flatnonzero_eq y c)"
  by (simp add: flatnonzero_eq_def)

lemma sorted_flatnonzero_eq: "sorted (flatnonzero_eq y c)"
  by (simp add: flatnonzero_eq_def sorted_wrt_filter)

lemma length_flatnonzero_eq: "length (flatnonzero_eq y c) = count_list y c"
proof (induction y rule: rev_induct)
  case Nil
  then show ?case by (simp add: flatnonzero_eq_def)
next
  case (snoc a y)
  have "filter (\<lambda>i. (y @ [a]) ! i = c) [0..<length y] = filter (\<lambda>i. y ! i = c) [0..<length y]"
    by (rule filter_cong) (auto simp: nth_append)
  with snoc show ?case
    by (simp add: flatnonzero_eq_def)
qed

lemma set_np_unique: "set (np_unique xs) = set xs"
  by (simp add: np_unique_def)

lemma sorted_np_unique: "sorted (np_unique xs)"
  by (simp add: np_unique_def)

lemma distinct_np_unique: "distinct (np_unique xs)"
  by (simp add: np_unique_def)

subsection \<open>Counter\<close>

lemma keys_counter_incr:
  "map fst (counter_incr c m) = (if c \<in> fst ` set m then map fst m else map fst m @ [c])"
  by (induction c m rule: counter_incr.induct) auto

lemma map_of_counter_incr:
  "map_of (counter_incr c m) k =
     (if k = c then Some (Suc (case map_of m c of None \<Rightarrow> 0 | Some v \<Rightarrow> v)) else map_of m k)"
  by (induction c m rule: counter_incr.induct) auto

lemma Counter_snoc: "Counter (y @ [c]) = counter_incr c (Counter y)"
  by (simp add: Counter_def)

lemma keys_Counter: "set (map fst (Counter y)) = set y"
  by (induction y rule: rev_induct) (auto simp: Counter_snoc keys_counter_incr Counter_def)

lemma distinct_keys_Counter: "distinct (map fst (Counter y))"
  by (induction y rule: rev_induct) (auto simp: Counter_snoc keys_counter_incr Counter_def)

lemma counter_get_Counter: "counter_get (Counter y) c = count_list y c"
  by (induction y rule: rev_induct)
     (auto simp: Counter_snoc map_of_counter_incr counter_get_def Counter_def split: option.splits)

lemma map_of_Counter: "c \<in> set y \<Longrightarrow> map_of (Counter y) c = Some (count_list y c)"
  using counter_get_Counter[of y c] keys_Counter[of y]
  by (auto simp: counter_get_def split: option.splits simp: map_of_eq_None_iff)


lemma takeWhile_neq_append:
  "x \<notin> set xs \<Longrightarrow> takeWhile (\<lambda>a. a \<noteq> x) (xs @ x # ys) = xs"
  by (induction xs) auto

lemma before_Counter:
  "b \<in> set y \<Longrightarrow> set (takeWhile (\<lambda>a. a \<noteq> b) (map fst (Counter y))) = set (takeWhile (\<lambda>a. a \<noteq> b) y)"
proof (induction y rule: rev_induct)
  case Nil
  then show ?case by simp
next
  case (snoc x y)
  show ?case
  proof (cases "b \<in> set y")
    case True
    then have bk: "b \<in> set (map fst (Counter y))" using keys_Counter[of y] by simp
    from True have "takeWhile (\<lambda>a. a \<noteq> b) (y @ [x]) = takeWhile (\<lambda>a. a \<noteq> b) y"
      by simp
    moreover have "takeWhile (\<lambda>a. a \<noteq> b) (map fst (Counter (y @ [x]))) = takeWhile (\<lambda>a. a \<noteq> b) (map fst (Counter y))"
      using bk by (auto simp: Counter_snoc keys_counter_incr simp del: set_map)
    ultimately show ?thesis using snoc.IH[OF True] by simp
  next
    case False
    with snoc.prems have bx: "b = x" by simp
    from False bx have nk: "x \<notin> fst ` set (Counter y)" using keys_Counter[of y] by simp
    have "takeWhile (\<lambda>a. a \<noteq> b) (y @ [x]) = y"
      using False bx takeWhile_neq_append[of x y "[]"] by simp
    moreover have "takeWhile (\<lambda>a. a \<noteq> b) (map fst (Counter (y @ [x]))) = map fst (Counter y)"
      using nk bx takeWhile_neq_append[of x "map fst (Counter y)" "[]"]
      by (simp add: Counter_snoc keys_counter_incr)
    ultimately show ?thesis using keys_Counter[of y] by simp
  qed
qed

lemma takeWhile_neq_mem_append:
  "k \<in> set xs \<Longrightarrow> takeWhile (\<lambda>a. a \<noteq> k) (xs @ ys) = takeWhile (\<lambda>a. a \<noteq> k) xs"
  by (induction xs) auto

lemma takeWhile_neq_notin:
  "k \<notin> set xs \<Longrightarrow> takeWhile (\<lambda>a. a \<noteq> k) (xs @ ys) = xs @ takeWhile (\<lambda>a. a \<noteq> k) ys"
  by (induction xs) auto

lemma min_inv_step:
  assumes inv: "min_inv b seen" and d: "distinct (map fst (seen @ [kv]))"
  shows "min_inv (if snd kv < snd b then kv else b) (seen @ [kv])"
proof (cases "snd kv < snd b")
  case True
  have "\<forall>p \<in> set (seen @ [kv]). snd kv \<le> snd p \<and>
        (snd p = snd kv \<and> fst p \<noteq> fst kv \<longrightarrow> fst kv \<in> set (takeWhile (\<lambda>a. a \<noteq> fst p) (map fst (seen @ [kv]))))"
  proof
    fix p assume p: "p \<in> set (seen @ [kv])"
    show "snd kv \<le> snd p \<and>
        (snd p = snd kv \<and> fst p \<noteq> fst kv \<longrightarrow> fst kv \<in> set (takeWhile (\<lambda>a. a \<noteq> fst p) (map fst (seen @ [kv]))))"
    proof (cases "p = kv")
      case True
      then show ?thesis by simp
    next
      case False
      with p have "p \<in> set seen" by simp
      with inv have "snd b \<le> snd p" by (simp add: min_inv_def)
      with True show ?thesis by simp
    qed
  qed
  with True show ?thesis by (simp add: min_inv_def)
next
  case False
  from d have knew: "fst kv \<notin> set (map fst seen)" by simp
  from inv have bin: "b \<in> set seen" by (simp add: min_inv_def)
  have "\<forall>p \<in> set (seen @ [kv]). snd b \<le> snd p \<and>
        (snd p = snd b \<and> fst p \<noteq> fst b \<longrightarrow> fst b \<in> set (takeWhile (\<lambda>a. a \<noteq> fst p) (map fst (seen @ [kv]))))"
  proof
    fix p assume p: "p \<in> set (seen @ [kv])"
    show "snd b \<le> snd p \<and>
        (snd p = snd b \<and> fst p \<noteq> fst b \<longrightarrow> fst b \<in> set (takeWhile (\<lambda>a. a \<noteq> fst p) (map fst (seen @ [kv]))))"
    proof (cases "p \<in> set seen")
      case True
      then have "fst p \<in> set (map fst seen)" by simp
      then have "takeWhile (\<lambda>a. a \<noteq> fst p) (map fst (seen @ [kv])) = takeWhile (\<lambda>a. a \<noteq> fst p) (map fst seen)"
        by (simp add: takeWhile_neq_mem_append)
      with inv True show ?thesis by (simp add: min_inv_def)
    next
      case notin: False
      with p have pk: "p = kv" by simp
      have "takeWhile (\<lambda>a. a \<noteq> fst kv) (map fst (seen @ [kv])) = map fst seen"
        using knew takeWhile_neq_append[of "fst kv" "map fst seen" "[]"] by simp
      with pk False bin show ?thesis by auto
    qed
  qed
  with False bin show ?thesis by (simp add: min_inv_def)
qed

lemma min_scan_inv:
  "min_inv b seen \<Longrightarrow> distinct (map fst (seen @ rest)) \<Longrightarrow> min_inv (min_scan b rest) (seen @ rest)"
proof (induction rest arbitrary: b seen)
  case Nil
  then show ?case by simp
next
  case (Cons kv rest)
  have d: "distinct (map fst (seen @ [kv]))" using Cons.prems(2) by simp
  have "min_inv (min_scan (if snd kv < snd b then kv else b) rest) ((seen @ [kv]) @ rest)"
    by (rule Cons.IH[OF min_inv_step[OF Cons.prems(1) d]]) (use Cons.prems(2) in simp)
  then show ?case by simp
qed

lemma min_key_inv:
  assumes "distinct (map fst m)" and "min_key m = Some c"
  shows "\<exists>v. min_inv (c, v) m"
proof (cases m)
  case Nil
  with assms show ?thesis by (simp add: min_key_def)
next
  case (Cons kv rest)
  have "min_inv kv [kv]" by (simp add: min_inv_def)
  from min_scan_inv[OF this, of rest] assms(1) Cons
  have "min_inv (min_scan kv rest) m" by simp
  moreover from assms(2) Cons have "fst (min_scan kv rest) = c" by (simp add: min_key_def)
  ultimately show ?thesis by (metis prod.collapse)
qed


text \<open>The minority class: a label of y with the least count, met before any other label with the same count.\<close>

lemma class_minority_spec:
  assumes "min_key (Counter y) = Some cm"
  shows "cm \<in> set y \<and>
         (\<forall>c \<in> set y. count_list y cm \<le> count_list y c \<and>
            (count_list y c = count_list y cm \<and> c \<noteq> cm \<longrightarrow> cm \<in> set (takeWhile (\<lambda>a. a \<noteq> c) y)))"
proof -
  from min_key_inv[OF distinct_keys_Counter assms] obtain v where inv: "min_inv (cm, v) (Counter y)" ..
  then have mem: "(cm, v) \<in> set (Counter y)" by (simp add: min_inv_def)
  then have cmy: "cm \<in> set y" using keys_Counter[of y] by force
  from mem have v: "v = count_list y cm"
    using map_of_Counter[OF cmy] distinct_keys_Counter[of y] by (simp add: map_of_eq_Some_iff)
  have "\<forall>c \<in> set y. count_list y cm \<le> count_list y c \<and>
            (count_list y c = count_list y cm \<and> c \<noteq> cm \<longrightarrow> cm \<in> set (takeWhile (\<lambda>a. a \<noteq> c) y))"
  proof
    fix c assume c: "c \<in> set y"
    have "(c, count_list y c) \<in> set (Counter y)"
      using map_of_Counter[OF c] by (simp add: map_of_SomeD)
    with inv have "v \<le> count_list y c \<and> (count_list y c = v \<and> c \<noteq> cm \<longrightarrow>
        cm \<in> set (takeWhile (\<lambda>a. a \<noteq> c) (map fst (Counter y))))"
      unfolding min_inv_def by force
    with v before_Counter[OF c] show "count_list y cm \<le> count_list y c \<and>
            (count_list y c = count_list y cm \<and> c \<noteq> cm \<longrightarrow> cm \<in> set (takeWhile (\<lambda>a. a \<noteq> c) y))"
      by simp
  qed
  with cmy show ?thesis by simp
qed

lemma foldl_invariant:
  assumes "P s" and "\<And>s x. P s \<Longrightarrow> x \<in> set xs \<Longrightarrow> P (f s x)"
  shows "P (foldl f s xs)"
  using assms by (induction xs arbitrary: s) auto

lemma loop_inv_init: "loop_inv y cm t seeds ev (cnn_init K est X y cm t seeds ev)"
  by (simp add: loop_inv_def cnn_init_def Let_def)

lemma loop_inv_step:
  assumes inv: "loop_inv y cm t seeds ev st" and p: "fst sam < length (flatnonzero_eq y t)"
  shows "loop_inv y cm t seeds ev (cnn_step K est X y cm t (flatnonzero_eq y t) S_x S_y st sam)"
proof -
  obtain idx_sam x_sam y_sam where sam: "sam = (idx_sam, x_sam, y_sam)" by (cases sam) auto
  from inv obtain added evs where
    a: "idx_maj_sample st = seeds @ added" and
    b: "set added \<subseteq> set (flatnonzero_eq y t)" and
    c: "C_indices st = flatnonzero_eq y cm @ seeds @ added" and
    d: "events st = ev @ DrawSeeds t seeds # Fit t cm (flatnonzero_eq y cm @ seeds) # evs" and
    e: "list_all (loop_event y cm t) evs"
    unfolding loop_inv_def by blast
  from p sam have mem: "flatnonzero_eq y t ! idx_sam \<in> set (flatnonzero_eq y t)" by simp
  show ?thesis
  proof (cases "idx_sam \<in> set (good_classif_label st)")
    case True
    with inv sam show ?thesis by (simp add: cnn_step_def)
  next
    case notgood: False
    show ?thesis
    proof (cases "y_sam \<noteq> predict K (fitted st) x_sam")
      case True
      let ?g = "flatnonzero_eq y t ! idx_sam"
      have "loop_inv y cm t seeds ev (cnn_step K est X y cm t (flatnonzero_eq y t) S_x S_y st sam)"
        unfolding loop_inv_def
        apply (rule exI[of _ "added @ [?g]"])
        apply (rule exI[of _ "evs @ [Predict t idx_sam, Fit t cm (C_indices st @ [?g]), PredictAll t]"])
        using True notgood sam a b c d e mem
        by (auto simp: cnn_step_def Let_def loop_event_def)
      then show ?thesis .
    next
      case False
      have "loop_inv y cm t seeds ev (cnn_step K est X y cm t (flatnonzero_eq y t) S_x S_y st sam)"
        unfolding loop_inv_def
        apply (rule exI[of _ "added"])
        apply (rule exI[of _ "evs @ [Predict t idx_sam]"])
        using False notgood sam a b c d e
        by (simp add: cnn_step_def Let_def loop_event_def)
      then show ?thesis .
    qed
  qed
qed

lemma fst_zip_upt: "x \<in> set (zip [0..<n] zs) \<Longrightarrow> fst x < n"
proof -
  assume "x \<in> set (zip [0..<n] zs)"
  then have "(fst x, snd x) \<in> set (zip [0..<n] zs)" by simp
  then have "fst x \<in> set [0..<n]" by (rule set_zip_leftD)
  then show ?thesis by simp
qed

lemma cnn_loop_inv:
  fixes K :: "('x, 'c, 'm, 'r) collaborators"
  shows "loop_inv y cm t seeds ev (cnn_loop K est X y cm t seeds ev)"
  unfolding cnn_loop_def Let_def
proof (rule foldl_invariant[where P = "loop_inv y cm t seeds ev"])
  show "loop_inv y cm t seeds ev (cnn_init K est X y cm t seeds ev)" by (rule loop_inv_init)
next
  fix s :: "'m cnn_state" and x :: "nat \<times> 'x \<times> label"
  assume s: "loop_inv y cm t seeds ev s"
    and x: "x \<in> set (zip [0..<length (safe_indexing X (flatnonzero_eq y t))]
                (zip (safe_indexing X (flatnonzero_eq y t)) (safe_indexing y (flatnonzero_eq y t))))"
  have "fst x < length (flatnonzero_eq y t)"
    using fst_zip_upt[OF x] by (simp add: safe_indexing_def)
  from loop_inv_step[OF s this]
  show "loop_inv y cm t seeds ev
          (cnn_step K est X y cm t (flatnonzero_eq y t) (safe_indexing X (flatnonzero_eq y t))
             (safe_indexing y (flatnonzero_eq y t)) s x)" .
qed

lemma count_list_pos: "t \<in> set y \<Longrightarrow> 0 < count_list y t"
  by (induction y) auto

lemma set_safe_indexing:
  "\<forall>d \<in> set ds. d < length a \<Longrightarrow> set (safe_indexing a ds) \<subseteq> set a"
  by (auto simp: safe_indexing_def)

lemma class_step_block:
  fixes K :: "('x, 'c, 'm, 'r) collaborators"
  assumes ok: "randint_ok K" and t: "t \<in> set y"
  shows "\<exists>rs' block evs.
           class_step K self est X y (Counter y) cm (rs, idx, ev) t = (rs', idx @ block, ev @ evs) \<and>
           class_block K self est X y cm (t, block, evs)"
proof (cases "sampling_strategy' self t = None")
  case True
  then show ?thesis by (simp add: class_step_def class_block_def)
next
  case False
  let ?idx_maj = "flatnonzero_eq y t"
  obtain draws rs' where r: "randint K rs (count_list y t) (n_seeds_S self) = (draws, rs')"
    by (cases "randint K rs (count_list y t) (n_seeds_S self)") auto
  let ?seeds = "safe_indexing ?idx_maj draws"
  let ?st = "cnn_loop K est X y cm t ?seeds ev"
  from ok count_list_pos[OF t] r
  have len: "length draws = n_seeds_S self" and rng: "\<forall>d \<in> set draws. d < count_list y t"
    unfolding randint_ok_def by (metis fst_conv)+
  from rng have sub: "set ?seeds \<subseteq> set ?idx_maj"
    by (intro set_safe_indexing) (simp add: length_flatnonzero_eq)
  from cnn_loop_inv[of y cm t ?seeds ev K est X] obtain added evs where
    a: "idx_maj_sample ?st = ?seeds @ added" and
    b: "set added \<subseteq> set ?idx_maj" and
    d: "events ?st = ev @ DrawSeeds t ?seeds # Fit t cm (flatnonzero_eq y cm @ ?seeds) # evs" and
    e: "list_all (loop_event y cm t) evs"
    unfolding loop_inv_def by blast
  have step: "class_step K self est X y (Counter y) cm (rs, idx, ev) t =
           (rs', idx @ ?seeds @ added, ev @ DrawSeeds t ?seeds # Fit t cm (flatnonzero_eq y cm @ ?seeds) # evs)"
    using False r a d by (simp add: class_step_def counter_get_Counter Let_def)
  have blk: "class_block K self est X y cm (t, ?seeds @ added, DrawSeeds t ?seeds # Fit t cm (flatnonzero_eq y cm @ ?seeds) # evs)"
    unfolding class_block_def using False len sub b e r a
    by (auto simp: safe_indexing_def intro: exI[of _ rs] exI[of _ ev])
  from step blk show ?thesis by blast
qed

lemma class_loop_blocks:
  fixes K :: "('x, 'c, 'm, 'r) collaborators"
  assumes ok: "randint_ok K"
  shows "set cs \<subseteq> set y \<Longrightarrow>
         \<exists>rs' bs. foldl (class_step K self est X y (Counter y) cm) (rs, idx, ev) cs =
                    (rs', idx @ concat (map (\<lambda>b. fst (snd b)) bs), ev @ concat (map (\<lambda>b. snd (snd b)) bs)) \<and>
                  map fst bs = cs \<and> list_all (class_block K self est X y cm) bs"
proof (induction cs arbitrary: rs idx ev)
  case Nil
  show ?case by (rule exI[of _ rs], rule exI[of _ "[]"]) simp
next
  case (Cons t cs)
  from Cons.prems have t: "t \<in> set y" and cs: "set cs \<subseteq> set y" by auto
  from class_step_block[OF ok t, of self est X cm rs idx ev] obtain rs1 block evs where
    s: "class_step K self est X y (Counter y) cm (rs, idx, ev) t = (rs1, idx @ block, ev @ evs)" and
    b: "class_block K self est X y cm (t, block, evs)" by blast
  from Cons.IH[OF cs, of rs1 "idx @ block" "ev @ evs"] obtain rs' bs where
    f: "foldl (class_step K self est X y (Counter y) cm) (rs1, idx @ block, ev @ evs) cs =
          (rs', (idx @ block) @ concat (map (\<lambda>b. fst (snd b)) bs), (ev @ evs) @ concat (map (\<lambda>b. snd (snd b)) bs))" and
    m: "map fst bs = cs" and l: "list_all (class_block K self est X y cm) bs" by blast
  show ?case
    by (rule exI[of _ rs'], rule exI[of _ "(t, block, evs) # bs"]) (use s f m l b in simp)
qed

lemma class_block_subset:
  assumes "class_block K self est X y cm (t, block, evs)"
  shows "set block \<subseteq> set (flatnonzero_eq y t)"
proof (cases "sampling_strategy' self t = None")
  case True
  with assms show ?thesis by (simp add: class_block_def)
next
  case False
  with assms obtain seeds added where "block = seeds @ added"
    "set seeds \<subseteq> set (flatnonzero_eq y t)" "set added \<subseteq> set (flatnonzero_eq y t)"
    unfolding class_block_def by auto
  then show ?thesis by simp
qed

lemma emitted_block:
  "set block \<subseteq> set (flatnonzero_eq y t) \<Longrightarrow> emitted y c block = (if t = c then block else [])"
  by (auto simp: emitted_def set_flatnonzero_eq filter_empty_conv intro: filter_True)

lemma emitted_append: "emitted y c (xs @ ys) = emitted y c xs @ emitted y c ys"
  by (simp add: emitted_def)

lemma blocks_in_range:
  "list_all (class_block K self est X y cm) bs \<Longrightarrow>
   \<forall>i \<in> set (concat (map (\<lambda>b. fst (snd b)) bs)). i < length y"
proof (induction bs)
  case Nil
  then show ?case by simp
next
  case (Cons b bs)
  obtain t block evs where b: "b = (t, block, evs)" by (cases b) auto
  with Cons.prems have "set block \<subseteq> set (flatnonzero_eq y t)"
    by (auto dest: class_block_subset)
  then have "\<forall>i \<in> set block. i < length y" by (auto simp: set_flatnonzero_eq)
  with Cons b show ?case by auto
qed

lemma emitted_blocks_notin:
  "list_all (class_block K self est X y cm) bs \<Longrightarrow> c \<notin> set (map fst bs) \<Longrightarrow>
   emitted y c (concat (map (\<lambda>b. fst (snd b)) bs)) = []"
proof (induction bs)
  case Nil
  then show ?case by (simp add: emitted_def)
next
  case (Cons b bs)
  obtain t block evs where b: "b = (t, block, evs)" by (cases b) auto
  with Cons.prems have "set block \<subseteq> set (flatnonzero_eq y t)" and "t \<noteq> c"
    by (auto dest: class_block_subset)
  then have "emitted y c block = []" by (simp add: emitted_block)
  with Cons b show ?case by (simp add: emitted_append)
qed

lemma emitted_blocks:
  "list_all (class_block K self est X y cm) bs \<Longrightarrow> distinct (map fst bs) \<Longrightarrow>
   (c, block, evs) \<in> set bs \<Longrightarrow>
   emitted y c (concat (map (\<lambda>b. fst (snd b)) bs)) = block"
proof (induction bs)
  case Nil
  then show ?case by simp
next
  case (Cons b bs)
  obtain t blk es where b: "b = (t, blk, es)" by (cases b) auto
  from Cons.prems(1) b have sub: "set blk \<subseteq> set (flatnonzero_eq y t)"
    by (auto dest: class_block_subset)
  from Cons.prems(1) have rest: "list_all (class_block K self est X y cm) bs" by simp
  show ?case
  proof (cases "(c, block, evs) = b")
    case True
    with b have eq: "t = c" "blk = block" by auto
    from Cons.prems(2) b eq have "c \<notin> set (map fst bs)" by simp
    from emitted_blocks_notin[OF rest this] sub b eq show ?thesis
      by (simp add: emitted_append emitted_block)
  next
    case False
    with Cons.prems(3) have mem: "(c, block, evs) \<in> set bs" by auto
    then have "c \<in> set (map fst bs)" by force
    with Cons.prems(2) b have "t \<noteq> c" by auto
    with sub have "emitted y c blk = []" by (simp add: emitted_block)
    moreover from Cons.IH[OF rest _ mem] Cons.prems(2)
    have "emitted y c (concat (map (\<lambda>b. fst (snd b)) bs)) = block" by simp
    ultimately show ?thesis using b by (simp add: emitted_append)
  qed
qed

lemma labels_block:
  "set block \<subseteq> set (flatnonzero_eq y t) \<Longrightarrow> map (\<lambda>i. y ! i) block = replicate (length block) t"
  by (induction block) (auto simp: set_flatnonzero_eq)

lemma sorted_blocks:
  "list_all (class_block K self est X y cm) bs \<Longrightarrow> sorted (map fst bs) \<Longrightarrow>
   sorted (map (\<lambda>i. y ! i) (concat (map (\<lambda>b. fst (snd b)) bs))) \<and>
   (\<forall>l \<in> set (map (\<lambda>i. y ! i) (concat (map (\<lambda>b. fst (snd b)) bs))). l \<in> set (map fst bs))"
proof (induction bs)
  case Nil
  then show ?case by simp
next
  case (Cons b bs)
  obtain t blk es where b: "b = (t, blk, es)" by (cases b) auto
  from Cons.prems(1) b have sub: "set blk \<subseteq> set (flatnonzero_eq y t)"
    by (auto dest: class_block_subset)
  from Cons.prems have rest: "list_all (class_block K self est X y cm) bs" and srt: "sorted (map fst bs)"
    and le: "\<forall>c \<in> set (map fst bs). t \<le> c" using b by auto
  let ?rest = "map (\<lambda>i. y ! i) (concat (map (\<lambda>b. fst (snd b)) bs))"
  from Cons.IH[OF rest srt] have s1: "sorted ?rest" and s2: "\<forall>l \<in> set ?rest. l \<in> set (map fst bs)"
    by blast+
  from s2 le have s3: "\<forall>l \<in> set ?rest. t \<le> l" by blast
  have eq: "map (\<lambda>i. y ! i) (concat (map (\<lambda>b. fst (snd b)) (b # bs))) = replicate (length blk) t @ ?rest"
    using labels_block[OF sub] b by simp
  have "sorted (replicate (length blk) t @ ?rest)"
    using s1 s3 by (simp add: sorted_append)
  moreover have "\<forall>l \<in> set (replicate (length blk) t @ ?rest). l \<in> set (map fst (b # bs))"
    using s2 b by auto
  ultimately show ?case unfolding eq by blast
qed

lemma validate_estimator_Inr:
  "validate_estimator self = Inr self1 \<Longrightarrow> \<exists>est. self1 = self\<lparr>estimator' := Some est\<rparr>"
  by (auto simp: validate_estimator_def split: n_neighbors_arg.splits)

lemma validate_estimator_Inl:
  "validate_estimator self = Inl e \<longleftrightarrow> (\<exists>ty. n_neighbors self = NOther ty \<and> e = ValueError_n_neighbors ty)"
  by (auto simp: validate_estimator_def split: n_neighbors_arg.splits)

lemma class_block_estimator [simp]:
  "class_block K (self\<lparr>estimator' := e\<rparr>) est X y cm b = class_block K self est X y cm b"
  by (simp add: class_block_def)

lemma fit_resample_unfold:
  assumes v: "validate_estimator self = Inr (self\<lparr>estimator' := Some est\<rparr>)"
    and m: "min_key (Counter y) = Some cm"
    and f: "foldl (class_step K (self\<lparr>estimator' := Some est\<rparr>) est X y (Counter y) cm)
              (random_state self, [], []) (np_unique y) = (rs, idx, ev)"
  shows "fit_resample K self X y w =
           Inr (gathered X y w idx, self\<lparr>estimator' := Some est, sample_indices' := Some idx\<rparr>, rs, ev)"
  using v m f by (simp add: fit_resample_def gathered_def Let_def split: option.splits)

lemma fit_resample_Inr:
  assumes "fit_resample K self X y w = Inr r"
  shows "\<exists>est cm rs idx ev.
           validate_estimator self = Inr (self\<lparr>estimator' := Some est\<rparr>) \<and>
           min_key (Counter y) = Some cm \<and>
           foldl (class_step K (self\<lparr>estimator' := Some est\<rparr>) est X y (Counter y) cm)
             (random_state self, [], []) (np_unique y) = (rs, idx, ev) \<and>
           r = (gathered X y w idx, self\<lparr>estimator' := Some est, sample_indices' := Some idx\<rparr>, rs, ev)"
proof (cases "validate_estimator self")
  case (Inl e)
  with assms show ?thesis by (simp add: fit_resample_def)
next
  case (Inr self1)
  from validate_estimator_Inr[OF Inr] obtain est where s1: "self1 = self\<lparr>estimator' := Some est\<rparr>" ..
  show ?thesis
  proof (cases "min_key (Counter y)")
    case None
    with assms Inr s1 show ?thesis by (simp add: fit_resample_def Let_def)
  next
    case (Some cm)
    obtain rs idx ev where f: "foldl (class_step K (self\<lparr>estimator' := Some est\<rparr>) est X y (Counter y) cm)
             (random_state self, [], []) (np_unique y) = (rs, idx, ev)"
      by (metis prod_cases3)
    from fit_resample_unfold[OF Inr[unfolded s1] Some f, of w] assms Inr s1 Some f
    show ?thesis by auto
  qed
qed

lemma fit_resample_blocks:
  fixes K :: "('x, 'c, 'm, 'r) collaborators"
  assumes ok: "randint_ok K" and r: "fit_resample K self X y w = Inr (out, self', rs, ev)"
  shows "\<exists>est cm bs.
           validate_estimator self = Inr (self\<lparr>estimator' := Some est\<rparr>) \<and>
           min_key (Counter y) = Some cm \<and>
           map fst bs = np_unique y \<and>
           list_all (class_block K self est X y cm) bs \<and>
           out = gathered X y w (concat (map (\<lambda>b. fst (snd b)) bs)) \<and>
           self' = self\<lparr>estimator' := Some est, sample_indices' := Some (concat (map (\<lambda>b. fst (snd b)) bs))\<rparr> \<and>
           ev = concat (map (\<lambda>b. snd (snd b)) bs)"
proof -
  from fit_resample_Inr[OF r] obtain est cm rs1 idx ev1 where
    v: "validate_estimator self = Inr (self\<lparr>estimator' := Some est\<rparr>)" and
    m: "min_key (Counter y) = Some cm" and
    f: "foldl (class_step K (self\<lparr>estimator' := Some est\<rparr>) est X y (Counter y) cm)
             (random_state self, [], []) (np_unique y) = (rs1, idx, ev1)" and
    e: "(out, self', rs, ev) = (gathered X y w idx, self\<lparr>estimator' := Some est, sample_indices' := Some idx\<rparr>, rs1, ev1)"
    by blast
  have sub: "set (np_unique y) \<subseteq> set y" by (simp add: set_np_unique)
  from class_loop_blocks[OF ok sub, of "self\<lparr>estimator' := Some est\<rparr>" est X cm "random_state self" "[]" "[]"]
  obtain rs' bs where
    f': "foldl (class_step K (self\<lparr>estimator' := Some est\<rparr>) est X y (Counter y) cm) (random_state self, [], []) (np_unique y) =
           (rs', [] @ concat (map (\<lambda>b. fst (snd b)) bs), [] @ concat (map (\<lambda>b. snd (snd b)) bs))" and
    mp: "map fst bs = np_unique y" and
    la: "list_all (class_block K (self\<lparr>estimator' := Some est\<rparr>) est X y cm) bs" by blast
  from la have la': "list_all (class_block K self est X y cm) bs" by (simp add: list_all_iff)
  from f f' have "idx = concat (map (\<lambda>b. fst (snd b)) bs)" "ev1 = concat (map (\<lambda>b. snd (snd b)) bs)" by simp_all
  with e m mp la' v show ?thesis by blast
qed


subsection \<open>Events\<close>

lemma loop_event_no_draw: "list_all (loop_event y cm t) evs \<Longrightarrow> DrawSeeds t' s \<notin> set evs"
  by (auto simp: list_all_iff loop_event_def)

lemma loop_event_fit:
  "list_all (loop_event y cm t) evs \<Longrightarrow> Fit t' m C \<in> set evs \<Longrightarrow>
   t' = t \<and> m = cm \<and> set (flatnonzero_eq y cm) \<subseteq> set C"
proof -
  assume l: "list_all (loop_event y cm t) evs" and f: "Fit t' m C \<in> set evs"
  from l f have "loop_event y cm t (Fit t' m C)" by (simp add: list_all_iff)
  then show ?thesis by (simp add: loop_event_def)
qed

lemma class_step_events:
  fixes K :: "('x, 'c, 'm, 'r) collaborators"
  shows "\<exists>rs' idx' evs.
           class_step K self est X y ts cm (rs, idx, ev) t = (rs', idx', ev @ evs) \<and>
           (\<forall>t' m C. Fit t' m C \<in> set evs \<longrightarrow> m = cm \<and> set (flatnonzero_eq y cm) \<subseteq> set C) \<and>
           (sampling_strategy' self t \<noteq> None \<longrightarrow> (\<exists>C. Fit t cm C \<in> set evs))"
proof (cases "sampling_strategy' self t = None")
  case True
  then show ?thesis by (simp add: class_step_def)
next
  case False
  obtain draws rs' where r: "randint K rs (counter_get ts t) (n_seeds_S self) = (draws, rs')"
    by (cases "randint K rs (counter_get ts t) (n_seeds_S self)") auto
  let ?seeds = "safe_indexing (flatnonzero_eq y t) draws"
  let ?st = "cnn_loop K est X y cm t ?seeds ev"
  from cnn_loop_inv[of y cm t ?seeds ev K est X] obtain added evs where
    d: "events ?st = ev @ DrawSeeds t ?seeds # Fit t cm (flatnonzero_eq y cm @ ?seeds) # evs" and
    e: "list_all (loop_event y cm t) evs"
    unfolding loop_inv_def by blast
  let ?evs = "DrawSeeds t ?seeds # Fit t cm (flatnonzero_eq y cm @ ?seeds) # evs"
  have step: "class_step K self est X y ts cm (rs, idx, ev) t = (rs', idx @ idx_maj_sample ?st, ev @ ?evs)"
    using False r d by (simp add: class_step_def Let_def)
  have fits: "\<forall>t' m C. Fit t' m C \<in> set ?evs \<longrightarrow> m = cm \<and> set (flatnonzero_eq y cm) \<subseteq> set C"
    using loop_event_fit[OF e] by auto
  have "\<exists>C. Fit t cm C \<in> set ?evs" by auto
  with step fits show ?thesis by blast
qed

lemma class_loop_events:
  fixes K :: "('x, 'c, 'm, 'r) collaborators"
  shows "\<exists>rs' idx' evs.
           foldl (class_step K self est X y ts cm) (rs, idx, ev) cs = (rs', idx', ev @ evs) \<and>
           (\<forall>t' m C. Fit t' m C \<in> set evs \<longrightarrow> m = cm \<and> set (flatnonzero_eq y cm) \<subseteq> set C) \<and>
           (\<forall>t \<in> set cs. sampling_strategy' self t \<noteq> None \<longrightarrow> (\<exists>C. Fit t cm C \<in> set evs))"
proof (induction cs arbitrary: rs idx ev)
  case Nil
  show ?case by (rule exI[of _ rs], rule exI[of _ idx], rule exI[of _ "[]"]) simp
next
  case (Cons t cs)
  from class_step_events[of K self est X y ts cm rs idx ev t] obtain rs1 idx1 evs1 where
    s: "class_step K self est X y ts cm (rs, idx, ev) t = (rs1, idx1, ev @ evs1)" and
    f1: "\<forall>t' m C. Fit t' m C \<in> set evs1 \<longrightarrow> m = cm \<and> set (flatnonzero_eq y cm) \<subseteq> set C" and
    g1: "sampling_strategy' self t \<noteq> None \<longrightarrow> (\<exists>C. Fit t cm C \<in> set evs1)" by blast
  from Cons.IH[of rs1 idx1 "ev @ evs1"] obtain rs' idx' evs2 where
    f: "foldl (class_step K self est X y ts cm) (rs1, idx1, ev @ evs1) cs = (rs', idx', (ev @ evs1) @ evs2)" and
    f2: "\<forall>t' m C. Fit t' m C \<in> set evs2 \<longrightarrow> m = cm \<and> set (flatnonzero_eq y cm) \<subseteq> set C" and
    g2: "\<forall>t \<in> set cs. sampling_strategy' self t \<noteq> None \<longrightarrow> (\<exists>C. Fit t cm C \<in> set evs2)" by blast
  have a: "foldl (class_step K self est X y ts cm) (rs, idx, ev) (t # cs) = (rs', idx', ev @ (evs1 @ evs2))"
    using s f by simp
  have b: "\<forall>t' m C. Fit t' m C \<in> set (evs1 @ evs2) \<longrightarrow> m = cm \<and> set (flatnonzero_eq y cm) \<subseteq> set C"
  proof (intro allI impI)
    fix t' m C assume "Fit t' m C \<in> set (evs1 @ evs2)"
    then have "Fit t' m C \<in> set evs1 \<or> Fit t' m C \<in> set evs2" by simp
    then show "m = cm \<and> set (flatnonzero_eq y cm) \<subseteq> set C" using f1 f2 by blast
  qed
  have c: "\<forall>u \<in> set (t # cs). sampling_strategy' self u \<noteq> None \<longrightarrow> (\<exists>C. Fit u cm C \<in> set (evs1 @ evs2))"
    using g1 g2 by auto
  from a b c show ?case by blast
qed

lemma class_block_draw:
  assumes "class_block K self est X y cm (t, block, evs)" and "DrawSeeds t' s \<in> set evs"
  shows "t' = t \<and> sampling_strategy' self t \<noteq> None \<and> (\<exists>added. block = s @ added) \<and>
         evs \<noteq> [] \<and> hd evs = DrawSeeds t s"
proof (cases "sampling_strategy' self t = None")
  case True
  with assms show ?thesis by (simp add: class_block_def)
next
  case False
  with assms(1) obtain seeds added evs' where
    b: "block = seeds @ added" and e: "evs = DrawSeeds t seeds # Fit t cm (flatnonzero_eq y cm @ seeds) # evs'"
    and l: "list_all (loop_event y cm t) evs'"
    unfolding class_block_def by auto
  from assms(2) e loop_event_no_draw[OF l] have "t' = t" "s = seeds" by auto
  with b e False show ?thesis by auto
qed

lemma blocks_key_unique:
  "distinct (map fst bs) \<Longrightarrow> (t, a) \<in> set bs \<Longrightarrow> (t, b) \<in> set bs \<Longrightarrow> a = b"
  by (metis eq_key_imp_eq_value)

subsection \<open>The concrete collaborators and two runs\<close>

lemma randint_ok_K_nn1: "randint_ok K_nn1"
  by (auto simp: randint_ok_def K_nn1_def script_randint_def dest!: in_set_takeD)

lemmas eval_defs = fit_resample_def validate_estimator_def cnn_new_def K_nn1_def
  class_step_def cnn_loop_def cnn_init_def cnn_step_def Counter_def counter_get_def min_key_def
  np_unique_def flatnonzero_eq_def flatnonzero_agree_def safe_indexing_def
  nn1_fit_def nn1_predict_def script_randint_def Let_def upt_rec

lemma run_five_rows:
  "fit_resample (K_nn1 :: (int, unit, (int \<times> label) list, nat list) collaborators)
     (cnn_new [0 \<mapsto> 1] [0] NNone 1) [10, 0, 9, 1, 2] [1, 0, 0, 0, 0] (None :: nat list option) =
   Inr (Resampled2 [0, 10] [0, 1],
        (cnn_new [0 \<mapsto> 1] [0] NNone 1)
          \<lparr>estimator' := Some (KNeighborsClassifier 1 None), sample_indices' := Some [1, 0]\<rparr>,
        [],
        [DrawSeeds 0 [1], Fit 0 1 [0, 1], Predict 0 0, Predict 0 2, Predict 0 3])"
  by (simp add: eval_defs)

lemma run_seven_rows:
  "fit_resample (K_nn1 :: (int, unit, (int \<times> label) list, nat list) collaborators)
     (cnn_new [0 \<mapsto> 1] [2] NNone 1) [10, 11, 12, 0, 9, 1, 2] [1, 1, 1, 0, 0, 0, 0]
     (Some [1, 2, 3, 4, 5, 6, 7 :: nat]) =
   Inr (Resampled3 [1, 9, 10, 11, 12] [0, 0, 1, 1, 1] [6, 5, 1, 2, 3],
        (cnn_new [0 \<mapsto> 1] [2] NNone 1)
          \<lparr>estimator' := Some (KNeighborsClassifier 1 None), sample_indices' := Some [5, 4, 0, 1, 2]\<rparr>,
        [],
        [DrawSeeds 0 [5], Fit 0 1 [0, 1, 2, 5], Predict 0 0, Predict 0 1,
         Fit 0 1 [0, 1, 2, 5, 4], PredictAll 0])"
  by (simp add: eval_defs)

lemma run_duplicate_seeds:
  "fit_resample (K_nn1 :: (int, unit, (int \<times> label) list, nat list) collaborators)
     (cnn_new [0 \<mapsto> 1] [0, 0] NNone 2) [10, 0, 9, 1, 2] [1, 0, 0, 0, 0] (None :: nat list option) =
   Inr (Resampled2 [0, 0, 10] [0, 0, 1],
        (cnn_new [0 \<mapsto> 1] [0, 0] NNone 2)
          \<lparr>estimator' := Some (KNeighborsClassifier 1 None), sample_indices' := Some [1, 1, 0]\<rparr>,
        [],
        [DrawSeeds 0 [1, 1], Fit 0 1 [0, 1, 1], Predict 0 0, Predict 0 2, Predict 0 3])"
  by (simp add: eval_defs)

lemma run_three_classes:
  "fit_resample (K_nn1 :: (int, unit, (int \<times> label) list, nat list) collaborators)
     (cnn_new [1 \<mapsto> 1, 2 \<mapsto> 1] [1, 0] NNone 1) [0, 10, 1, 11, 20, 21] [3, 1, 3, 1, 2, 2]
     (None :: nat list option) =
   Inr (Resampled2 [11, 20, 0, 1] [1, 2, 3, 3],
        (cnn_new [1 \<mapsto> 1, 2 \<mapsto> 1] [1, 0] NNone 1)
          \<lparr>estimator' := Some (KNeighborsClassifier 1 None), sample_indices' := Some [3, 4, 0, 2]\<rparr>,
        [],
        [DrawSeeds 1 [3], Fit 1 3 [0, 2, 3], Predict 1 0, Predict 1 1,
         DrawSeeds 2 [4], Fit 2 3 [0, 2, 4], Predict 2 0, Predict 2 1])"
  by (simp add: eval_defs)

lemma class_block_targeted:
  assumes "class_block K self est X y cm (t, block, evs)" and "sampling_strategy' self t \<noteq> None"
  shows "\<exists>seeds added evs' rs0 ev0.
           block = seeds @ added \<and>
           block = idx_maj_sample (cnn_loop K est X y cm t seeds ev0) \<and>
           evs = DrawSeeds t seeds # Fit t cm (flatnonzero_eq y cm @ seeds) # evs' \<and>
           seeds = safe_indexing (flatnonzero_eq y t) (fst (randint K rs0 (count_list y t) (n_seeds_S self))) \<and>
           length seeds = n_seeds_S self \<and>
           set seeds \<subseteq> set (flatnonzero_eq y t) \<and>
           set added \<subseteq> set (flatnonzero_eq y t) \<and>
           list_all (loop_event y cm t) evs'"
proof -
  from assms have "\<exists>seeds added evs'.
                block = seeds @ added \<and>
                (\<exists>ev0. block = idx_maj_sample (cnn_loop K est X y cm t seeds ev0)) \<and>
                evs = DrawSeeds t seeds # Fit t cm (flatnonzero_eq y cm @ seeds) # evs' \<and>
                (\<exists>rs. seeds = safe_indexing (flatnonzero_eq y t)
                                (fst (randint K rs (count_list y t) (n_seeds_S self)))) \<and>
                length seeds = n_seeds_S self \<and>
                set seeds \<subseteq> set (flatnonzero_eq y t) \<and>
                set added \<subseteq> set (flatnonzero_eq y t) \<and>
                list_all (loop_event y cm t) evs'"
    unfolding class_block_def by simp
  then show ?thesis by blast
qed

lemma run_full_agreement:
  "fit_resample (K_nn1 :: (int, unit, (int \<times> label) list, nat list) collaborators)
     (cnn_new [0 \<mapsto> 1] [2] NNone 1) [10, 0, 1, 2, 3] [1, 0, 0, 0, 0] (None :: nat list option) =
   Inr (Resampled2 [2, 10] [0, 1],
        (cnn_new [0 \<mapsto> 1] [2] NNone 1)
          \<lparr>estimator' := Some (KNeighborsClassifier 1 None), sample_indices' := Some [3, 0]\<rparr>,
        [],
        [DrawSeeds 0 [3], Fit 0 1 [0, 3], Predict 0 0, Predict 0 1, Predict 0 2])"
  by (simp add: eval_defs)

lemma in_set_zip3:
  assumes "x \<in> set (zip [0..<n] (zip xs ys))"
  shows "\<exists>p. p < n \<and> p < length xs \<and> p < length ys \<and> x = (p, xs ! p, ys ! p)"
proof -
  obtain a b c where x: "x = (a, b, c)" by (cases x) auto
  with assms have "(a, (b, c)) \<in> set (zip [0..<n] (zip xs ys))" by simp
  then obtain k where k: "[0..<n] ! k = a" "zip xs ys ! k = (b, c)" "k < length [0..<n]" "k < length (zip xs ys)"
    unfolding in_set_zip by auto
  then have "a = k" "k < n" "k < length xs" "k < length ys" "b = xs ! k" "c = ys ! k" by auto
  with x show ?thesis by blast
qed

lemma draw_seeds_block:
  assumes la: "list_all (class_block K self est X y cm) bs" and d: "distinct (map fst bs)"
    and m: "(t, block, evs) \<in> set bs" and s: "DrawSeeds t s \<in> set (concat (map (\<lambda>b. snd (snd b)) bs))"
  shows "DrawSeeds t s \<in> set evs"
proof -
  from s obtain b' where b': "b' \<in> set bs" and in': "DrawSeeds t s \<in> set (snd (snd b'))" by auto
  obtain t' blk' evs'' where bb: "b' = (t', blk', evs'')" by (cases b') auto
  from la b' bb have cb': "class_block K self est X y cm (t', blk', evs'')" by (simp add: list_all_iff)
  from class_block_draw[OF cb'] in' bb have "t' = t" by simp
  with b' bb have "(t, blk', evs'') \<in> set bs" by simp
  from blocks_key_unique[OF d this m] have "evs'' = evs" by simp
  with in' bb show ?thesis by simp
qed

text \<open>When the classifier fitted on the minority rows and the seeds predicts every row
  of the class correctly, the candidate loop appends nothing.\<close>

lemma cnn_loop_no_growth:
  fixes K :: "('x, 'c, 'm, 'r) collaborators"
  assumes agree: "\<forall>i \<in> set (flatnonzero_eq y t).
      predict K (fit K est (safe_indexing X (flatnonzero_eq y cm @ seeds))
                           (safe_indexing y (flatnonzero_eq y cm @ seeds))) (X ! i) = y ! i"
  shows "idx_maj_sample (cnn_loop K est X y cm t seeds ev) = seeds"
proof -
  let ?m0 = "fit K est (safe_indexing X (flatnonzero_eq y cm @ seeds)) (safe_indexing y (flatnonzero_eq y cm @ seeds))"
  let ?S = "flatnonzero_eq y t"
  let ?P = "\<lambda>st :: 'm cnn_state. idx_maj_sample st = seeds \<and> fitted st = ?m0"
  have "?P (foldl (cnn_step K est X y cm t ?S (safe_indexing X ?S) (safe_indexing y ?S))
              (cnn_init K est X y cm t seeds ev)
              (zip [0..<length (safe_indexing X ?S)] (zip (safe_indexing X ?S) (safe_indexing y ?S))))"
  proof (rule foldl_invariant[where P = ?P])
    show "?P (cnn_init K est X y cm t seeds ev)" by (simp add: cnn_init_def Let_def)
  next
    fix st :: "'m cnn_state" and x :: "nat \<times> 'x \<times> label"
    assume st: "?P st"
      and x: "x \<in> set (zip [0..<length (safe_indexing X ?S)] (zip (safe_indexing X ?S) (safe_indexing y ?S)))"
    from in_set_zip3[OF x] obtain p where p: "p < length ?S"
      and xe: "x = (p, safe_indexing X ?S ! p, safe_indexing y ?S ! p)"
      by (auto simp: safe_indexing_def)
    from p have mem: "?S ! p \<in> set ?S" by simp
    from p have "safe_indexing X ?S ! p = X ! (?S ! p)" "safe_indexing y ?S ! p = y ! (?S ! p)"
      by (simp_all add: safe_indexing_def)
    with agree mem have "predict K ?m0 (safe_indexing X ?S ! p) = safe_indexing y ?S ! p" by simp
    with st xe show "?P (cnn_step K est X y cm t ?S (safe_indexing X ?S) (safe_indexing y ?S) st x)"
      by (simp add: cnn_step_def Let_def)
  qed
  then show ?thesis by (simp add: cnn_loop_def Let_def)
qed


lemmas loop_eval_defs = K_nn1_def cnn_loop_def cnn_init_def cnn_step_def
  np_unique_def flatnonzero_eq_def flatnonzero_agree_def safe_indexing_def
  nn1_fit_def nn1_predict_def Let_def upt_rec

section \<open>The claims\<close>

text \<open>
  C1 fails on the code. Rows \<open>[10, 0, 9, 1, 2]\<close> with labels \<open>[1, 0, 0, 0, 0]\<close>, class 0
  targeted, one seed, drawn at position 0 of the queue: the seed is row 1. The code
  stores the seed as the index value 1 and compares positions with it. So position 0,
  the position of the seed, is classified although it is the one position marked
  well-classified; and position 1, which was never marked, is skipped. Row 2, at
  position 1, is never tested, the classifier fitted on the selected rows predicts 1
  for it, and it is missing from the selection \<open>[1]\<close>. With position-based tracking
  position 1 is tested and row 2 is selected.
\<close>

theorem C1_skip_test_failing_input:
  "fit_resample (K_nn1 :: (int, unit, (int \<times> label) list, nat list) collaborators)
     (cnn_new [0 \<mapsto> 1] [0] NNone 1) [10, 0, 9, 1, 2] [1, 0, 0, 0, 0] (None :: nat list option) =
   Inr (Resampled2 [0, 10] [0, 1],
        (cnn_new [0 \<mapsto> 1] [0] NNone 1)
          \<lparr>estimator' := Some (KNeighborsClassifier 1 None), sample_indices' := Some [1, 0]\<rparr>,
        [],
        [DrawSeeds 0 [1], Fit 0 1 [0, 1], Predict 0 0, Predict 0 2, Predict 0 3]) \<and>
   events (cnn_loop (K_nn1 :: (int, unit, (int \<times> label) list, nat list) collaborators)
      (KNeighborsClassifier 1 None) [10, 0, 9, 1, 2] [1, 0, 0, 0, 0] 1 0 [1] []) =
     [DrawSeeds 0 [1], Fit 0 1 [0, 1], Predict 0 0, Predict 0 2, Predict 0 3] \<and>
   idx_maj_sample (cnn_loop (K_nn1 :: (int, unit, (int \<times> label) list, nat list) collaborators)
      (KNeighborsClassifier 1 None) [10, 0, 9, 1, 2] [1, 0, 0, 0, 0] 1 0 [1] []) = [1] \<and>
   predict (K_nn1 :: (int, unit, (int \<times> label) list, nat list) collaborators)
     (fitted (cnn_loop (K_nn1 :: (int, unit, (int \<times> label) list, nat list) collaborators)
        (KNeighborsClassifier 1 None) [10, 0, 9, 1, 2] [1, 0, 0, 0, 0] 1 0 [1] [])) ([10, 0, 9, 1, 2] ! 2) = 1 \<and>
   [1, 0, 0, 0, 0 :: label] ! 2 = 0 \<and>
   events (cnn_loop_position_based (K_nn1 :: (int, unit, (int \<times> label) list, nat list) collaborators)
      (KNeighborsClassifier 1 None) [10, 0, 9, 1, 2] [1, 0, 0, 0, 0] 1 0 [0] []) =
     [DrawSeeds 0 [1], Fit 0 1 [0, 1], Predict 0 1, Fit 0 1 [0, 1, 2], PredictAll 0] \<and>
   idx_maj_sample (cnn_loop_position_based (K_nn1 :: (int, unit, (int \<times> label) list, nat list) collaborators)
      (KNeighborsClassifier 1 None) [10, 0, 9, 1, 2] [1, 0, 0, 0, 0] 1 0 [0] []) = [1, 2]"
  using run_five_rows
  by (simp add: loop_eval_defs cnn_loop_position_based_def cnn_step_position_based_def)







text \<open>
  C4. For a label that is not a key of the sampling strategy, the indices emitted for
  that label are exactly the positions of the label in \<open>y\<close>, in ascending order; and
  the labels of the emitted indices are ascending, that is, the classes, targeted or
  not, contribute in ascending order of their labels.
\<close>

theorem C4_passthrough:
  fixes K :: "('x, 'c, 'm, 'r) collaborators"
  assumes "randint_ok K" and "fit_resample K self X y w = Inr (out, self', rs, ev)"
    and "sampling_strategy' self c = None"
  shows "\<exists>idx. sample_indices' self' = Some idx \<and>
               emitted y c idx = flatnonzero_eq y c \<and>
               sorted (map (\<lambda>i. y ! i) idx)"
proof -
  from fit_resample_blocks[OF assms(1,2)] obtain est cm bs where
    mp: "map fst bs = np_unique y" and
    la: "list_all (class_block K self est X y cm) bs" and
    s: "self' = self\<lparr>estimator' := Some est, sample_indices' := Some (concat (map (\<lambda>b. fst (snd b)) bs))\<rparr>"
    by blast
  let ?idx = "concat (map (\<lambda>b. fst (snd b)) bs)"
  have d: "distinct (map fst bs)" and so: "sorted (map fst bs)"
    by (simp_all add: mp distinct_np_unique sorted_np_unique)
  have e: "emitted y c ?idx = flatnonzero_eq y c"
  proof (cases "c \<in> set y")
    case True
    then have "c \<in> set (map fst bs)" by (simp add: mp set_np_unique)
    then obtain block evs where m: "(c, block, evs) \<in> set bs" by auto
    with la have "class_block K self est X y cm (c, block, evs)" by (simp add: list_all_iff)
    with assms(3) have "block = flatnonzero_eq y c" by (simp add: class_block_def)
    with emitted_blocks[OF la d m] show ?thesis by simp
  next
    case False
    then have "c \<notin> set (map fst bs)" by (simp add: mp set_np_unique)
    from emitted_blocks_notin[OF la this] have "emitted y c ?idx = []" .
    moreover from False have "flatnonzero_eq y c = []"
      by (auto simp: flatnonzero_eq_def filter_empty_conv)
    ultimately show ?thesis by simp
  qed
  from sorted_blocks[OF la so] have "sorted (map (\<lambda>i. y ! i) ?idx)" by blast
  with e s show ?thesis by simp
qed

theorem C4_passthrough_witness:
  "randint_ok (K_nn1 :: (int, unit, (int \<times> label) list, nat list) collaborators) \<and>
   sampling_strategy' (cnn_new [0 \<mapsto> 1] [2::nat] (NNone :: unit n_neighbors_arg) 1) 1 = None \<and>
   emitted [1, 1, 1, 0, 0, 0, 0] 1 [5, 4, 0, 1, 2] = flatnonzero_eq [1, 1, 1, 0, 0, 0, 0 :: label] 1 \<and>
   flatnonzero_eq [1, 1, 1, 0, 0, 0, 0 :: label] 1 = [0, 1, 2] \<and>
   sorted (map (\<lambda>i. [1, 1, 1, 0, 0, 0, 0 :: label] ! i) [5, 4, 0, 1, 2])"
proof -
  have h: "sampling_strategy' (cnn_new [0 \<mapsto> 1] [2::nat] (NNone :: unit n_neighbors_arg) 1) 1 = None"
    by (simp add: cnn_new_def)
  have f: "flatnonzero_eq [1, 1, 1, 0, 0, 0, 0 :: label] 1 = [0, 1, 2]"
    by (simp add: flatnonzero_eq_def upt_rec)
  from C4_passthrough[OF randint_ok_K_nn1 run_seven_rows h] randint_ok_K_nn1 h f
  show ?thesis by simp
qed

text \<open>
  C5. The minority class is \<^verbatim>\<open>min(target_stats, key=target_stats.get)\<close>: a label of \<open>y\<close>
  with the least count which, among the labels with that count, is the first one met
  in \<open>y\<close>. Every fit of the run, whatever the class being processed, is made with this
  one minority class and on rows that include all the rows of the minority class; and
  every targeted class of \<open>y\<close> has such a fit.
\<close>

theorem C5_minority:
  fixes K :: "('x, 'c, 'm, 'r) collaborators"
  assumes res: "fit_resample K self X y w = Inr (out, self', rs, ev)"
  shows "\<exists>cm. min_key (Counter y) = Some cm \<and> cm \<in> set y \<and>
           (\<forall>c \<in> set y. count_list y cm \<le> count_list y c \<and>
              (count_list y c = count_list y cm \<and> c \<noteq> cm \<longrightarrow> cm \<in> set (takeWhile (\<lambda>a. a \<noteq> c) y))) \<and>
           (\<forall>t m C. Fit t m C \<in> set ev \<longrightarrow> m = cm \<and> set (flatnonzero_eq y cm) \<subseteq> set C) \<and>
           (\<forall>t \<in> set y. sampling_strategy' self t \<noteq> None \<longrightarrow> (\<exists>C. Fit t cm C \<in> set ev))"
proof -
  from fit_resample_Inr[OF res] obtain est cm rs1 idx ev1 where
    m: "min_key (Counter y) = Some cm" and
    f: "foldl (class_step K (self\<lparr>estimator' := Some est\<rparr>) est X y (Counter y) cm)
             (random_state self, [], []) (np_unique y) = (rs1, idx, ev1)" and
    e: "(out, self', rs, ev) = (gathered X y w idx, self\<lparr>estimator' := Some est, sample_indices' := Some idx\<rparr>, rs1, ev1)"
    by blast
  from class_loop_events[of K "self\<lparr>estimator' := Some est\<rparr>" est X y "Counter y" cm "random_state self" "[]" "[]" "np_unique y"]
  obtain rs' idx' evs where
    f': "foldl (class_step K (self\<lparr>estimator' := Some est\<rparr>) est X y (Counter y) cm)
             (random_state self, [], []) (np_unique y) = (rs', idx', [] @ evs)" and
    a: "\<forall>t' m C. Fit t' m C \<in> set evs \<longrightarrow> m = cm \<and> set (flatnonzero_eq y cm) \<subseteq> set C" and
    b: "\<forall>t \<in> set (np_unique y). sampling_strategy' (self\<lparr>estimator' := Some est\<rparr>) t \<noteq> None \<longrightarrow>
          (\<exists>C. Fit t cm C \<in> set evs)"
    by blast
  from f f' e have ev: "ev = evs" by simp
  from b have b': "\<forall>t \<in> set y. sampling_strategy' self t \<noteq> None \<longrightarrow> (\<exists>C. Fit t cm C \<in> set evs)"
    by (simp add: set_np_unique)
  from class_minority_spec[OF m] m a b' ev show ?thesis by blast
qed

theorem C5_minority_witness:
  "min_key (Counter [3, 1, 3, 1, 2, 2]) = Some 3 \<and>
   (\<exists>cm. min_key (Counter [3, 1, 3, 1, 2, 2]) = Some cm \<and> cm \<in> set [3, 1, 3, 1, 2, 2] \<and>
      (\<forall>c \<in> set [3, 1, 3, 1, 2, 2]. count_list [3, 1, 3, 1, 2, 2] cm \<le> count_list [3, 1, 3, 1, 2, 2] c \<and>
         (count_list [3, 1, 3, 1, 2, 2] c = count_list [3, 1, 3, 1, 2, 2] cm \<and> c \<noteq> cm \<longrightarrow>
            cm \<in> set (takeWhile (\<lambda>a. a \<noteq> c) [3, 1, 3, 1, 2, 2]))) \<and>
      (\<forall>t m C. Fit t m C \<in> set [DrawSeeds 1 [3], Fit 1 3 [0, 2, 3], Predict 1 0, Predict 1 1,
                                 DrawSeeds 2 [4], Fit 2 3 [0, 2, 4], Predict 2 0, Predict 2 1] \<longrightarrow>
         m = cm \<and> set (flatnonzero_eq [3, 1, 3, 1, 2, 2] cm) \<subseteq> set C) \<and>
      (\<forall>t \<in> set [3, 1, 3, 1, 2, 2].
         sampling_strategy' (cnn_new [1 \<mapsto> 1, 2 \<mapsto> 1] [1, 0 :: nat] (NNone :: unit n_neighbors_arg) 1) t \<noteq> None \<longrightarrow>
         (\<exists>C. Fit t cm C \<in> set [DrawSeeds 1 [3], Fit 1 3 [0, 2, 3], Predict 1 0, Predict 1 1,
                                 DrawSeeds 2 [4], Fit 2 3 [0, 2, 4], Predict 2 0, Predict 2 1])))"
proof -
  have "min_key (Counter [3, 1, 3, 1, 2, 2]) = Some 3"
    by (simp add: min_key_def Counter_def)
  with C5_minority[OF run_three_classes] show ?thesis by blast
qed

text \<open>
  C6. For a targeted class \<open>t\<close> of \<open>y\<close>, exactly one list of seeds is drawn: the entries
  of the class's index list at the \<open>n_seeds_S\<close> positions \<^verbatim>\<open>randint\<close> returns, a repeated
  draw giving a repeated entry. The indices emitted for \<open>t\<close> begin with this list as it
  is, and all of them are indices of the class \<open>t\<close>. (That the draws are uniform is the
  random source's business; here \<^verbatim>\<open>randint\<close> is any function that keeps its contract.)
\<close>

theorem C6_seed_inclusion:
  fixes K :: "('x, 'c, 'm, 'r) collaborators"
  assumes ok: "randint_ok K" and res: "fit_resample K self X y w = Inr (out, self', rs, ev)"
    and t: "t \<in> set y" and tg: "sampling_strategy' self t \<noteq> None"
  shows "\<exists>idx seeds rs0.
           sample_indices' self' = Some idx \<and>
           DrawSeeds t seeds \<in> set ev \<and> (\<forall>s. DrawSeeds t s \<in> set ev \<longrightarrow> s = seeds) \<and>
           seeds = safe_indexing (flatnonzero_eq y t) (fst (randint K rs0 (count_list y t) (n_seeds_S self))) \<and>
           length seeds = n_seeds_S self \<and>
           prefix seeds (emitted y t idx) \<and>
           set (emitted y t idx) \<subseteq> set (flatnonzero_eq y t)"
proof -
  from fit_resample_blocks[OF ok res] obtain est cm bs where
    mp: "map fst bs = np_unique y" and
    la: "list_all (class_block K self est X y cm) bs" and
    s: "self' = self\<lparr>estimator' := Some est, sample_indices' := Some (concat (map (\<lambda>b. fst (snd b)) bs))\<rparr>" and
    e: "ev = concat (map (\<lambda>b. snd (snd b)) bs)"
    by blast
  let ?idx = "concat (map (\<lambda>b. fst (snd b)) bs)"
  have d: "distinct (map fst bs)" by (simp add: mp distinct_np_unique)
  from t have "t \<in> set (map fst bs)" by (simp add: mp set_np_unique)
  then obtain block evs where m: "(t, block, evs) \<in> set bs" by auto
  with la have cb: "class_block K self est X y cm (t, block, evs)" by (simp add: list_all_iff)
  from class_block_targeted[OF cb tg] obtain seeds added evs' rs0 where
    b: "block = seeds @ added" and
    ee: "evs = DrawSeeds t seeds # Fit t cm (flatnonzero_eq y cm @ seeds) # evs'" and
    sd: "seeds = safe_indexing (flatnonzero_eq y t) (fst (randint K rs0 (count_list y t) (n_seeds_S self)))" and
    ln: "length seeds = n_seeds_S self" and
    le: "list_all (loop_event y cm t) evs'"
    by blast
  from emitted_blocks[OF la d m] have em: "emitted y t ?idx = block" .
  have pre: "prefix seeds (emitted y t ?idx)" using em b by simp
  have sub: "set (emitted y t ?idx) \<subseteq> set (flatnonzero_eq y t)"
    using em class_block_subset[OF cb] by simp
  have ex: "DrawSeeds t seeds \<in> set ev"
    using e m ee by force
  have un: "\<forall>s. DrawSeeds t s \<in> set ev \<longrightarrow> s = seeds"
  proof (intro allI impI)
    fix s assume "DrawSeeds t s \<in> set ev"
    with e obtain b' where b': "b' \<in> set bs" and in': "DrawSeeds t s \<in> set (snd (snd b'))" by auto
    obtain t' blk' evs'' where bb: "b' = (t', blk', evs'')" by (cases b') auto
    from la b' bb have cb': "class_block K self est X y cm (t', blk', evs'')" by (simp add: list_all_iff)
    from class_block_draw[OF cb'] in' bb have "t' = t" by simp
    with b' bb have "(t, blk', evs'') \<in> set bs" by simp
    from blocks_key_unique[OF d this m] have "evs'' = evs" by simp
    with in' bb have "DrawSeeds t s \<in> set evs" by simp
    with ee loop_event_no_draw[OF le] show "s = seeds" by auto
  qed
  from s have "sample_indices' self' = Some ?idx" by simp
  with ex un sd ln pre sub show ?thesis by blast
qed

theorem C6_seed_inclusion_witness:
  "randint_ok (K_nn1 :: (int, unit, (int \<times> label) list, nat list) collaborators) \<and>
   (0::label) \<in> set [1, 0, 0, 0, 0] \<and>
   sampling_strategy' (cnn_new [0 \<mapsto> 1] [0, 0 :: nat] (NNone :: unit n_neighbors_arg) 2) 0 \<noteq> None \<and>
   emitted [1, 0, 0, 0, 0] 0 [1, 1, 0] = [1, 1] \<and>
   prefix [1, 1] (emitted [1, 0, 0, 0, 0] 0 [1, 1, 0]) \<and>
   set (emitted [1, 0, 0, 0, 0] 0 [1, 1, 0]) \<subseteq> set (flatnonzero_eq [1, 0, 0, 0, 0 :: label] 0)"
proof -
  have h: "sampling_strategy' (cnn_new [0 \<mapsto> 1] [0, 0 :: nat] (NNone :: unit n_neighbors_arg) 2) 0 \<noteq> None"
    by (simp add: cnn_new_def)
  have m: "(0::label) \<in> set [1, 0, 0, 0, 0]" by simp
  have em: "emitted [1, 0, 0, 0, 0] 0 [1, 1, 0] = [1, 1]" by (simp add: emitted_def)
  from C6_seed_inclusion[OF randint_ok_K_nn1 run_duplicate_seeds m h]
  obtain idx seeds where
    i: "sample_indices' ((cnn_new [0 \<mapsto> 1] [0, 0 :: nat] (NNone :: unit n_neighbors_arg) 2)
          \<lparr>estimator' := Some (KNeighborsClassifier 1 None), sample_indices' := Some [1, 1, 0]\<rparr>) = Some idx" and
    u: "\<forall>s. DrawSeeds 0 s \<in> set [DrawSeeds 0 [1, 1], Fit 0 1 [0, 1, 1], Predict 0 0, Predict 0 2, Predict 0 3]
          \<longrightarrow> s = seeds" and
    p: "prefix seeds (emitted [1, 0, 0, 0, 0] 0 idx)" and
    sb: "set (emitted [1, 0, 0, 0, 0] 0 idx) \<subseteq> set (flatnonzero_eq [1, 0, 0, 0, 0 :: label] 0)"
    by blast
  from i have idx: "idx = [1, 1, 0]" by simp
  from u have "seeds = [1, 1]" by simp
  with p sb idx randint_ok_K_nn1 m h em show ?thesis by simp
qed

text \<open>
  C7. Every index of the final \<open>sample_indices_\<close> is below the number of rows, when
  \<^verbatim>\<open>randint\<close> keeps its contract (draws below \<open>high\<close>).
\<close>

theorem C7_indices_in_range:
  fixes K :: "('x, 'c, 'm, 'r) collaborators"
  assumes "randint_ok K" and "fit_resample K self X y w = Inr (out, self', rs, ev)"
  shows "\<exists>idx. sample_indices' self' = Some idx \<and> (\<forall>i \<in> set idx. i < length y)"
proof -
  from fit_resample_blocks[OF assms] obtain est cm bs where
    la: "list_all (class_block K self est X y cm) bs" and
    s: "self' = self\<lparr>estimator' := Some est, sample_indices' := Some (concat (map (\<lambda>b. fst (snd b)) bs))\<rparr>"
    by blast
  from blocks_in_range[OF la] s show ?thesis by simp
qed

theorem C7_indices_in_range_witness:
  "randint_ok (K_nn1 :: (int, unit, (int \<times> label) list, nat list) collaborators) \<and>
   (\<exists>idx. sample_indices' ((cnn_new [0 \<mapsto> 1] [2::nat] (NNone :: unit n_neighbors_arg) 1)
          \<lparr>estimator' := Some (KNeighborsClassifier 1 None), sample_indices' := Some [5, 4, 0, 1, 2]\<rparr>) = Some idx \<and>
      (\<forall>i \<in> set idx. i < length [1, 1, 1, 0, 0, 0, 0 :: label]))"
  using C7_indices_in_range[OF randint_ok_K_nn1 run_seven_rows] randint_ok_K_nn1 by blast



text \<open>
  C9. Let \<open>t\<close> be a targeted class of \<open>y\<close> with the seeds \<open>seeds\<close>. If the classifier
  fitted on the minority rows followed by the seeds predicts the label of every row of
  the class \<open>t\<close> correctly, then the indices emitted for \<open>t\<close> are the seeds and nothing
  else. It holds for every classifier, the 1-nearest-neighbour rule included.
\<close>

theorem C9_no_growth:
  fixes K :: "('x, 'c, 'm, 'r) collaborators"
  assumes ok: "randint_ok K" and res: "fit_resample K self X y w = Inr (out, self', rs, ev)"
    and t: "t \<in> set y" and tg: "sampling_strategy' self t \<noteq> None"
    and sd: "DrawSeeds t seeds \<in> set ev"
    and cm: "min_key (Counter y) = Some cm" and est: "estimator' self' = Some est"
    and agree: "\<forall>i \<in> set (flatnonzero_eq y t).
      predict K (fit K est (safe_indexing X (flatnonzero_eq y cm @ seeds))
                           (safe_indexing y (flatnonzero_eq y cm @ seeds))) (X ! i) = y ! i"
  shows "\<exists>idx. sample_indices' self' = Some idx \<and> emitted y t idx = seeds"
proof -
  from fit_resample_blocks[OF ok res] obtain est' cm' bs where
    m': "min_key (Counter y) = Some cm'" and
    mp: "map fst bs = np_unique y" and
    la: "list_all (class_block K self est' X y cm') bs" and
    s: "self' = self\<lparr>estimator' := Some est', sample_indices' := Some (concat (map (\<lambda>b. fst (snd b)) bs))\<rparr>" and
    e: "ev = concat (map (\<lambda>b. snd (snd b)) bs)"
    by blast
  from m' cm have c: "cm' = cm" by simp
  from s est have ee: "est' = est" by simp
  let ?idx = "concat (map (\<lambda>b. fst (snd b)) bs)"
  have d: "distinct (map fst bs)" by (simp add: mp distinct_np_unique)
  from t have "t \<in> set (map fst bs)" by (simp add: mp set_np_unique)
  then obtain block evs where m: "(t, block, evs) \<in> set bs" by auto
  with la have cb: "class_block K self est' X y cm' (t, block, evs)" by (simp add: list_all_iff)
  from class_block_targeted[OF cb tg] obtain seeds' evs' ev0 where
    b: "block = idx_maj_sample (cnn_loop K est' X y cm' t seeds' ev0)" and
    ev': "evs = DrawSeeds t seeds' # Fit t cm' (flatnonzero_eq y cm' @ seeds') # evs'" and
    le: "list_all (loop_event y cm' t) evs'"
    by blast
  from draw_seeds_block[OF la d m] sd e have "DrawSeeds t seeds \<in> set evs" by simp
  with ev' loop_event_no_draw[OF le] have "seeds' = seeds" by auto
  with b c ee cnn_loop_no_growth[OF agree, of ev0] have "block = seeds" by simp
  with emitted_blocks[OF la d m] have "emitted y t ?idx = seeds" by simp
  with s show ?thesis by simp
qed

theorem C9_no_growth_witness:
  "randint_ok (K_nn1 :: (int, unit, (int \<times> label) list, nat list) collaborators) \<and>
   (0::label) \<in> set [1, 0, 0, 0, 0] \<and>
   sampling_strategy' (cnn_new [0 \<mapsto> 1] [2 :: nat] (NNone :: unit n_neighbors_arg) 1) 0 \<noteq> None \<and>
   min_key (Counter [1, 0, 0, 0, 0]) = Some 1 \<and>
   list_all (\<lambda>i. predict (K_nn1 :: (int, unit, (int \<times> label) list, nat list) collaborators)
                (fit K_nn1 (KNeighborsClassifier 1 None)
                   (safe_indexing [10, 0, 1, 2, 3] (flatnonzero_eq [1, 0, 0, 0, 0 :: label] 1 @ [3]))
                   (safe_indexing [1, 0, 0, 0, 0] (flatnonzero_eq [1, 0, 0, 0, 0 :: label] 1 @ [3])))
                ([10, 0, 1, 2, 3] ! i) = [1, 0, 0, 0, 0] ! i)
     (flatnonzero_eq [1, 0, 0, 0, 0 :: label] 0) \<and>
   emitted [1, 0, 0, 0, 0] 0 [3, 0] = [3]"
proof -
  have h: "sampling_strategy' (cnn_new [0 \<mapsto> 1] [2 :: nat] (NNone :: unit n_neighbors_arg) 1) 0 \<noteq> None"
    by (simp add: cnn_new_def)
  have m: "(0::label) \<in> set [1, 0, 0, 0, 0]" by simp
  have sd: "DrawSeeds 0 [3] \<in> set [DrawSeeds 0 [3], Fit 0 1 [0, 3], Predict 0 0, Predict 0 1, Predict 0 2]"
    by simp
  have cm: "min_key (Counter [1, 0, 0, 0, 0]) = Some 1" by (simp add: min_key_def Counter_def)
  have est: "estimator' ((cnn_new [0 \<mapsto> 1] [2 :: nat] (NNone :: unit n_neighbors_arg) 1)
          \<lparr>estimator' := Some (KNeighborsClassifier 1 None), sample_indices' := Some [3, 0]\<rparr>) =
          Some (KNeighborsClassifier 1 None)" by simp
  have ag: "list_all (\<lambda>i. predict (K_nn1 :: (int, unit, (int \<times> label) list, nat list) collaborators)
                (fit K_nn1 (KNeighborsClassifier 1 None)
                   (safe_indexing [10, 0, 1, 2, 3] (flatnonzero_eq [1, 0, 0, 0, 0 :: label] 1 @ [3]))
                   (safe_indexing [1, 0, 0, 0, 0] (flatnonzero_eq [1, 0, 0, 0, 0 :: label] 1 @ [3])))
                ([10, 0, 1, 2, 3] ! i) = [1, 0, 0, 0, 0] ! i)
     (flatnonzero_eq [1, 0, 0, 0, 0 :: label] 0)"
    by (simp add: K_nn1_def nn1_fit_def nn1_predict_def safe_indexing_def flatnonzero_eq_def upt_rec)
  from C9_no_growth[OF randint_ok_K_nn1 run_full_agreement m h sd cm est ag[unfolded list_all_iff]]
  have "emitted [1, 0, 0, 0, 0] 0 [3, 0] = [3]" by simp
  with randint_ok_K_nn1 m h cm ag show ?thesis by blast
qed



end
